theory Spec2Isabelle
  imports Main
begin

section \<open>The Matrix bot component: command table and message handler\<close>

text \<open>
  The development follows \<^verbatim>\<open>homeassistant/components/matrix/__init__.py\<close>.
  Python strings are \<open>string\<close>, dictionaries are maps, the events fired on the host bus
  are the list a function returns, and an exception that leaves a function is a value.
\<close>

subsection \<open>Data\<close>

text \<open>
  The exceptions of the Python runtime that the handler can leave with: \<^verbatim>\<open>body[0]\<close> on
  an empty string, \<^verbatim>\<open>command[CONF_EXPRESSION]\<close> on a command without that key.
\<close>

datatype py_error = IndexError | KeyError

text \<open>
  A compiled regular expression is used by the source through one method only,
  \<^verbatim>\<open>pattern.match(body)\<close>, which matches at the beginning of the string and returns
  a match object or \<^verbatim>\<open>None\<close>; of the match object only \<^verbatim>\<open>groupdict()\<close> is
  read. The \<^verbatim>\<open>re\<close> library is not part of the component, so a pattern is modelled
  by that method: from the body to the dictionary of the named groups (a group that
  took no part in the match has the value \<^verbatim>\<open>None\<close>).
\<close>

type_synonym groupdict = "(string \<times> string option) list"

type_synonym pattern = "string \<Rightarrow> groupdict option"

text \<open>
  A command is a dictionary validated by \<^verbatim>\<open>COMMAND_SCHEMA\<close>: \<^verbatim>\<open>word\<close> and
  \<^verbatim>\<open>expression\<close> are optional keys, \<^verbatim>\<open>name\<close> is required and \<^verbatim>\<open>rooms\<close>
  defaults to the empty list (a missing \<^verbatim>\<open>rooms\<close> key and an empty list are both
  falsy for \<^verbatim>\<open>command.get(CONF_ROOMS)\<close>, and both are replaced).
\<close>

record command =
  c_word :: "string option"
  c_expression :: "pattern option"
  c_name :: string
  c_rooms :: "string list"

text \<open>The inbound event: \<^verbatim>\<open>event["content"]["msgtype"]\<close>, \<^verbatim>\<open>event["sender"]\<close>,
  \<^verbatim>\<open>event["content"]["body"]\<close>.\<close>

record event =
  ev_msgtype :: string
  ev_sender :: string
  ev_body :: string

text \<open>The payload of a fired \<^verbatim>\<open>matrix_command\<close> event. Its \<^verbatim>\<open>args\<close> is a list of
  strings for a word command and a dictionary for an expression command.\<close>

datatype args = ArgList "string list" | ArgDict groupdict

record event_data =
  ed_command :: string
  ed_sender :: string
  ed_room :: string
  ed_args :: args

type_synonym word_commands = "string \<rightharpoonup> (string \<rightharpoonup> command)"

type_synonym expression_commands = "string \<rightharpoonup> command list"

record matrix_bot =
  mx_id :: string
  listening_rooms :: "string list"
  bot_word_commands :: word_commands
  bot_expression_commands :: expression_commands

subsection \<open>Construction of the command table (\<^verbatim>\<open>MatrixBot.__init__\<close>)\<close>

text \<open>\<^verbatim>\<open>if not command.get(CONF_ROOMS): command[CONF_ROOMS] = listening_rooms\<close>\<close>

definition set_rooms :: "string list \<Rightarrow> command \<Rightarrow> command" where
  "set_rooms lrooms c = (if c_rooms c = [] then c\<lparr>c_rooms := lrooms\<rparr> else c)"

text \<open>The inner loop of the word branch: for every room of the command, create the
  room's dictionary if it is missing and store the command under its word.\<close>

fun add_word :: "command \<Rightarrow> string \<Rightarrow> string list \<Rightarrow> word_commands \<Rightarrow> word_commands" where
  "add_word c w [] wc = wc"
| "add_word c w (room_id # rs) wc =
     add_word c w rs
       (wc(room_id \<mapsto> (case wc room_id of None \<Rightarrow> Map.empty | Some d \<Rightarrow> d)(w \<mapsto> c)))"

text \<open>The inner loop of the expression branch: append the command to the room's list.\<close>

fun add_expression :: "command \<Rightarrow> string list \<Rightarrow> expression_commands \<Rightarrow> expression_commands" where
  "add_expression c [] ec = ec"
| "add_expression c (room_id # rs) ec =
     add_expression c rs
       (ec(room_id \<mapsto> (case ec room_id of None \<Rightarrow> [] | Some l \<Rightarrow> l) @ [c]))"

text \<open>\<^verbatim>\<open>command.get(CONF_WORD)\<close> is truthy when the key is there with a non-empty
  string.\<close>

definition truthy_word :: "command \<Rightarrow> string option" where
  "truthy_word c = (case c_word c of None \<Rightarrow> None | Some w \<Rightarrow> if w = [] then None else Some w)"

text \<open>The outer loop \<^verbatim>\<open>for command in commands\<close>.\<close>

fun register_commands ::
  "string list \<Rightarrow> command list \<Rightarrow> word_commands \<times> expression_commands
     \<Rightarrow> word_commands \<times> expression_commands" where
  "register_commands lrooms [] (wc, ec) = (wc, ec)"
| "register_commands lrooms (command # commands) (wc, ec) =
     (let c = set_rooms lrooms command in
      case truthy_word c of
        Some w \<Rightarrow> register_commands lrooms commands (add_word c w (c_rooms c) wc, ec)
      | None \<Rightarrow> register_commands lrooms commands (wc, add_expression c (c_rooms c) ec))"

definition MatrixBot :: "string \<Rightarrow> string list \<Rightarrow> command list \<Rightarrow> matrix_bot" where
  "MatrixBot username lrooms commands =
     (let (wc, ec) = register_commands lrooms commands (Map.empty, Map.empty) in
      \<lparr>mx_id = username, listening_rooms = lrooms,
       bot_word_commands = wc, bot_expression_commands = ec\<rparr>)"

subsection \<open>The message handler (\<^verbatim>\<open>MatrixBot._handle_room_message\<close>)\<close>

text \<open>Python's \<^verbatim>\<open>str.split(sep)\<close> with an explicit separator: every occurrence of
  the separator ends a piece, so two separators in a row give an empty piece, and the
  result is never empty.\<close>

fun split_sep :: "char \<Rightarrow> string \<Rightarrow> string list" where
  "split_sep sep [] = [[]]"
| "split_sep sep (c # cs) =
     (if c = sep then [] # split_sep sep cs
      else (case split_sep sep cs of [] \<Rightarrow> [[c]] | p # ps \<Rightarrow> (c # p) # ps))"

text \<open>\<^verbatim>\<open>self._word_commands.get(room_id, {}).get(cmd)\<close>\<close>

definition get_word_command :: "word_commands \<Rightarrow> string \<Rightarrow> string \<Rightarrow> command option" where
  "get_word_command wc room_id cmd = (case wc room_id of None \<Rightarrow> None | Some d \<Rightarrow> d cmd)"

text \<open>\<^verbatim>\<open>self._expression_commands.get(room_id, [])\<close>\<close>

definition get_expression_commands :: "expression_commands \<Rightarrow> string \<Rightarrow> command list" where
  "get_expression_commands ec room_id = (case ec room_id of None \<Rightarrow> [] | Some l \<Rightarrow> l)"

text \<open>The block under \<^verbatim>\<open>if body[0] == "!"\<close>: the events it fires, or the exception
  of \<^verbatim>\<open>pieces[0]\<close>.\<close>

definition word_command_events ::
  "matrix_bot \<Rightarrow> string \<Rightarrow> event \<Rightarrow> py_error + event_data list" where
  "word_command_events self room_id event =
     (let pieces = split_sep (CHR '' '') (ev_body event) in
      case pieces of
        [] \<Rightarrow> Inl IndexError
      | p0 # rest \<Rightarrow>
          (let cmd = drop 1 p0 in
           case get_word_command (bot_word_commands self) room_id cmd of
             None \<Rightarrow> Inr []
           | Some command \<Rightarrow>
               Inr [\<lparr>ed_command = c_name command, ed_sender = ev_sender event,
                     ed_room = room_id, ed_args = ArgList rest\<rparr>]))"

text \<open>The loop over the expression commands of the room: the events fired so far and
  the exception that ended the loop, if any.\<close>

fun expression_command_events ::
  "command list \<Rightarrow> string \<Rightarrow> event \<Rightarrow> event_data list \<times> py_error option" where
  "expression_command_events [] room_id event = ([], None)"
| "expression_command_events (command # commands) room_id event =
     (case c_expression command of
        None \<Rightarrow> ([], Some KeyError)
      | Some expression \<Rightarrow>
          (case expression (ev_body event) of
             None \<Rightarrow> expression_command_events commands room_id event
           | Some groups \<Rightarrow>
               (let (fired, err) = expression_command_events commands room_id event in
                (\<lparr>ed_command = c_name command, ed_sender = ev_sender event,
                  ed_room = room_id, ed_args = ArgDict groups\<rparr> # fired, err))))"

text \<open>The handler returns the events fired on the bus, in order, and the exception
  it left with (\<open>None\<close> for a normal return).\<close>

definition handle_room_message ::
  "matrix_bot \<Rightarrow> string \<Rightarrow> event \<Rightarrow> event_data list \<times> py_error option" where
  "handle_room_message self room_id event =
     (if ev_msgtype event \<noteq> ''m.text'' then ([], None)
      else if ev_sender event = mx_id self then ([], None)
      else (case ev_body event of
              [] \<Rightarrow> ([], Some IndexError)
            | b0 # _ \<Rightarrow>
                (case (if b0 = CHR ''!'' then word_command_events self room_id event else Inr []) of
                   Inl e \<Rightarrow> ([], Some e)
                 | Inr fired_word \<Rightarrow>
                     (let (fired, err) =
                        expression_command_events
                          (get_expression_commands (bot_expression_commands self) room_id)
                          room_id event
                      in (fired_word @ fired, err)))))"

subsection \<open>Vocabulary of the statements about the command table\<close>



text \<open>The event one expression command fires for a message, if its pattern matches.\<close>

definition fired_by :: "string \<Rightarrow> event \<Rightarrow> command \<Rightarrow> event_data option" where
  "fired_by room_id event c =
     (case c_expression c of
        None \<Rightarrow> None
      | Some expression \<Rightarrow>
          map_option (\<lambda>groups. \<lparr>ed_command = c_name c, ed_sender = ev_sender event,
                                 ed_room = room_id, ed_args = ArgDict groups\<rparr>)
            (expression (ev_body event)))"

text \<open>
  The specification's wording for the word commands, "split on whitespace": the tokens
  between runs of whitespace characters, none of them empty (Python's
  \<^verbatim>\<open>str.split()\<close> without an argument). It is compared below with the
  \<^verbatim>\<open>split(" ")\<close> of the source.
\<close>

definition is_whitespace :: "char \<Rightarrow> bool" where
  "is_whitespace c = (c \<in> set [CHR '' '', CHR 0x09, CHR 0x0A, CHR 0x0B, CHR 0x0C, CHR 0x0D])"

fun whitespace_tokens :: "string \<Rightarrow> string \<Rightarrow> string list" where
  "whitespace_tokens [] cur = (if cur = [] then [] else [cur])"
| "whitespace_tokens (c # cs) cur =
     (if is_whitespace c
      then (if cur = [] then whitespace_tokens cs [] else cur # whitespace_tokens cs [])
      else whitespace_tokens cs (cur @ [c]))"

definition spec_split_whitespace :: "string \<Rightarrow> string list" where
  "spec_split_whitespace s = whitespace_tokens s []"

subsection \<open>Sample configurations\<close>

definition ping_command :: command where
  "ping_command = \<lparr>c_word = Some ''ping'', c_expression = None, c_name = ''Ping'',
     c_rooms = [''!room:example.org'']\<rparr>"

definition ping_bot :: matrix_bot where
  "ping_bot = MatrixBot ''@bot:example.org'' [''!room:example.org''] [ping_command]"

definition text_event :: "string \<Rightarrow> event" where
  "text_event body =
     \<lparr>ev_msgtype = ''m.text'', ev_sender = ''@alice:example.org'', ev_body = body\<rparr>"

text \<open>The compiled empty pattern, \<^verbatim>\<open>re.compile("")\<close>: it matches at the start of
  every string and has no named group.\<close>

definition empty_pattern :: pattern where
  "empty_pattern body = Some []"

definition echo_command :: command where
  "echo_command = \<lparr>c_word = None, c_expression = Some empty_pattern, c_name = ''Echo'',
     c_rooms = []\<rparr>"

definition echo_bot :: matrix_bot where
  "echo_bot = MatrixBot ''@bot:example.org'' [''!room:example.org''] [echo_command]"





section \<open>The Matrix bot component: rooms, sending and login\<close>

subsection \<open>The client and the homeserver\<close>

text \<open>
  The client library and the homeserver behind it are not part of the component. They
  are a parameter of the model, with the interface the source uses:
  \<^verbatim>\<open>client.join_room(ref)\<close> returns the joined room or raises
  \<^verbatim>\<open>MatrixRequestError\<close>, \<^verbatim>\<open>room.update_aliases()\<close> reads the room's aliases
  from the server and stores them in \<^verbatim>\<open>room.aliases\<close> when the server lists any,
  \<^verbatim>\<open>room.send_text(message)\<close> returns the server's answer or raises
  \<^verbatim>\<open>MatrixRequestError\<close>. A \<^verbatim>\<open>MatrixRequestError\<close> carries a numeric code and
  the content of the server's answer.
\<close>

type_synonym request_error = "int \<times> string"

record transport =
  api_join_room :: "string \<Rightarrow> request_error + string"
  api_get_aliases :: "string \<Rightarrow> string list option"
  api_send_text :: "string \<Rightarrow> string \<Rightarrow> request_error + string"

text \<open>A room object of the client: its canonical id and the aliases it knows.\<close>

record room =
  r_room_id :: string
  r_aliases :: "string list"

text \<open>What the bot does to the outside, in order: the remote calls it issues and the
  errors it logs.\<close>

datatype call =
    JoinRoom string
  | UpdateAliases string
  | SendText string string
  | LogError string int string

text \<open>
  The state the room functions work on: \<^verbatim>\<open>client.rooms\<close> (a dictionary from room id
  to room object, here the room objects in the order of the dictionary),
  \<^verbatim>\<open>self._aliases_fetched_for\<close>, and the calls issued so far.
\<close>

record client_state =
  cl_rooms :: "room list"
  aliases_fetched_for :: "string set"
  calls :: "call list"

subsection \<open>Resolving a room (\<^verbatim>\<open>MatrixBot._join_or_get_room\<close>)\<close>

definition update_aliases :: "transport \<Rightarrow> room \<Rightarrow> room" where
  "update_aliases t room =
     (case api_get_aliases t (r_room_id room) of
        None \<Rightarrow> room
      | Some as \<Rightarrow> room\<lparr>r_aliases := as\<rparr>)"

text \<open>
  The loop \<^verbatim>\<open>for room in rooms.values()\<close>. It returns the room it found, if any,
  the room objects as the loop left them, the set of fetched ids and the calls it
  issued. The loop stops at the first room that has the reference among its aliases;
  the rooms after it are not visited.
\<close>

fun search_rooms ::
  "transport \<Rightarrow> string \<Rightarrow> room list \<Rightarrow> string set
     \<Rightarrow> room option \<times> room list \<times> string set \<times> call list" where
  "search_rooms t ref [] fetched = (None, [], fetched, [])"
| "search_rooms t ref (room # rest) fetched =
     (let (room1, fetched1, calls1) =
        (if r_room_id room \<notin> fetched
         then (update_aliases t room, insert (r_room_id room) fetched,
               [UpdateAliases (r_room_id room)])
         else (room, fetched, []))
      in if ref \<in> set (r_aliases room1) then (Some room1, room1 # rest, fetched1, calls1)
         else (let (found, rest', fetched2, calls2) = search_rooms t ref rest fetched1
               in (found, room1 # rest', fetched2, calls1 @ calls2)))"

text \<open>The client stores a joined room under its id: a new room object, which replaces
  the object of a room that is already there.\<close>

definition mkroom :: "string \<Rightarrow> room list \<Rightarrow> room list" where
  "mkroom rid rooms =
     (if rid \<in> r_room_id ` set rooms
      then map (\<lambda>r. if r_room_id r = rid then \<lparr>r_room_id = rid, r_aliases = []\<rparr> else r) rooms
      else rooms @ [\<lparr>r_room_id = rid, r_aliases = []\<rparr>])"

definition join_or_get_room ::
  "transport \<Rightarrow> client_state \<Rightarrow> string \<Rightarrow> (request_error + room) \<times> client_state" where
  "join_or_get_room t st room_id_or_alias =
     (case find (\<lambda>r. r_room_id r = room_id_or_alias) (cl_rooms st) of
        Some room \<Rightarrow> (Inr room, st)
      | None \<Rightarrow>
          (let (found, rooms1, fetched1, calls1) =
                 search_rooms t room_id_or_alias (cl_rooms st) (aliases_fetched_for st);
               st1 = st\<lparr>cl_rooms := rooms1, aliases_fetched_for := fetched1,
                        calls := calls st @ calls1\<rparr>
           in case found of
                Some room \<Rightarrow> (Inr room, st1)
              | None \<Rightarrow>
                  (case api_join_room t room_id_or_alias of
                     Inl e \<Rightarrow> (Inl e, st1\<lparr>calls := calls st1 @ [JoinRoom room_id_or_alias]\<rparr>)
                   | Inr rid \<Rightarrow>
                       (Inr \<lparr>r_room_id = rid, r_aliases = []\<rparr>,
                        st1\<lparr>cl_rooms := mkroom rid rooms1,
                            calls := calls st1 @ [JoinRoom room_id_or_alias]\<rparr>))))"

text \<open>A sequence of calls of \<^verbatim>\<open>_join_or_get_room\<close>, as \<^verbatim>\<open>_join_rooms\<close> and
  \<^verbatim>\<open>_send_message\<close> make them over the life of the process.\<close>

fun resolve_refs :: "transport \<Rightarrow> client_state \<Rightarrow> string list \<Rightarrow> client_state" where
  "resolve_refs t st [] = st"
| "resolve_refs t st (ref # refs) = resolve_refs t (snd (join_or_get_room t st ref)) refs"

subsection \<open>Sending (\<^verbatim>\<open>MatrixBot._send_message\<close>)\<close>

text \<open>The body of the loop with its \<^verbatim>\<open>try\<close> and \<^verbatim>\<open>except MatrixRequestError\<close>:
  the calls one target adds after the room was resolved.\<close>

definition send_outcome ::
  "transport \<Rightarrow> string \<Rightarrow> string \<Rightarrow> request_error + room \<Rightarrow> call list" where
  "send_outcome t message target_room resolved =
     (case resolved of
        Inl (code, content) \<Rightarrow> [LogError target_room code content]
      | Inr room \<Rightarrow>
          (case api_send_text t (r_room_id room) message of
             Inl (code, content) \<Rightarrow>
               [SendText (r_room_id room) message, LogError target_room code content]
           | Inr _ \<Rightarrow> [SendText (r_room_id room) message]))"

definition send_to_target ::
  "transport \<Rightarrow> string \<Rightarrow> client_state \<Rightarrow> string \<Rightarrow> client_state" where
  "send_to_target t message st target_room =
     (let (resolved, st1) = join_or_get_room t st target_room
      in st1\<lparr>calls := calls st1 @ send_outcome t message target_room resolved\<rparr>)"

fun send_message :: "transport \<Rightarrow> client_state \<Rightarrow> string \<Rightarrow> string list \<Rightarrow> client_state" where
  "send_message t st message [] = st"
| "send_message t st message (target_room # target_rooms) =
     send_message t (send_to_target t message st target_room) message target_rooms"

subsection \<open>Vocabulary of the statements about rooms\<close>

text \<open>The references of the join calls in a list of calls, in order.\<close>

fun join_calls :: "call list \<Rightarrow> string list" where
  "join_calls [] = []"
| "join_calls (JoinRoom ref # cs) = ref # join_calls cs"
| "join_calls (c # cs) = join_calls cs"

text \<open>A reference is reachable in a state when it is the id of a joined room, or an
  alias, among the aliases already fetched, of a joined room.\<close>

definition reachable :: "client_state \<Rightarrow> string \<Rightarrow> bool" where
  "reachable st ref =
     ((\<exists>room\<in>set (cl_rooms st). r_room_id room = ref)
      \<or> (\<exists>room\<in>set (cl_rooms st).
            r_room_id room \<in> aliases_fetched_for st \<and> ref \<in> set (r_aliases room)))"

text \<open>The alias cache agrees with the server: the room ids are distinct (they are the
  keys of a dictionary), every fetched id is the id of a room of the client, and a
  fetched room holds the aliases the server lists for it. This is so when the process
  starts, where nothing is fetched.\<close>

definition alias_cache_ok :: "transport \<Rightarrow> client_state \<Rightarrow> bool" where
  "alias_cache_ok t st =
     (distinct (map r_room_id (cl_rooms st))
      \<and> aliases_fetched_for st \<subseteq> r_room_id ` set (cl_rooms st)
      \<and> (\<forall>room\<in>set (cl_rooms st).
            r_room_id room \<in> aliases_fetched_for st \<longrightarrow> update_aliases t room = room))"

text \<open>The server joins the reference, and the room it joins is the reference itself or
  lists the reference among its aliases.\<close>

definition join_answers :: "transport \<Rightarrow> string \<Rightarrow> bool" where
  "join_answers t ref =
     (case api_join_room t ref of
        Inl e \<Rightarrow> False
      | Inr rid \<Rightarrow>
          rid = ref \<or> (case api_get_aliases t rid of None \<Rightarrow> False | Some as \<Rightarrow> ref \<in> set as))"

text \<open>A reference resolves without a join when the client has a room with that id, or
  the loop over the rooms finds a room that has it among its aliases.\<close>

definition resolves_locally :: "transport \<Rightarrow> client_state \<Rightarrow> string \<Rightarrow> bool" where
  "resolves_locally t st ref =
     (find (\<lambda>r. r_room_id r = ref) (cl_rooms st) \<noteq> None
      \<or> fst (search_rooms t ref (cl_rooms st) (aliases_fetched_for st)) \<noteq> None)"

subsection \<open>Sample servers\<close>

text \<open>A server that resolves the alias \<open>#home\<close> to the room \<open>!h\<close> and lists no alias
  for any room; a server that lists \<open>#home\<close> for \<open>!h\<close>; both reject every other join
  with 404 and accept every message.\<close>

definition silent_server :: transport where
  "silent_server =
     \<lparr>api_join_room = (\<lambda>ref. if ref = ''#home:example.org'' then Inr ''!h:example.org''
                             else Inl (404, ''No known servers'')),
      api_get_aliases = (\<lambda>rid. None),
      api_send_text = (\<lambda>rid message. Inr ''$event'')\<rparr>"

definition listing_server :: transport where
  "listing_server =
     \<lparr>api_join_room = (\<lambda>ref. if ref = ''#home:example.org'' then Inr ''!h:example.org''
                             else Inl (404, ''No known servers'')),
      api_get_aliases = (\<lambda>rid. if rid = ''!h:example.org'' then Some [''#home:example.org'']
                               else None),
      api_send_text = (\<lambda>rid message. Inr ''$event'')\<rparr>"

definition fresh_state :: client_state where
  "fresh_state = \<lparr>cl_rooms = [], aliases_fetched_for = {}, calls = []\<rparr>"

definition home_state :: client_state where
  "home_state =
     \<lparr>cl_rooms = [\<lparr>r_room_id = ''!h:example.org'', r_aliases = [''#home:example.org'']\<rparr>],
      aliases_fetched_for = {''!h:example.org''}, calls = []\<rparr>"

subsection \<open>Login (\<^verbatim>\<open>MatrixBot._login\<close>)\<close>

text \<open>
  The homeserver at login, a parameter as above: creating the client with a stored
  token makes a first request, which the server rejects with a
  \<^verbatim>\<open>MatrixRequestError\<close> or accepts; \<^verbatim>\<open>login_with_password\<close> is rejected or
  gives the client a newly issued token.
\<close>

record homeserver =
  hs_token_login :: "string \<Rightarrow> string \<Rightarrow> request_error option"
  hs_password_login :: "string \<Rightarrow> string \<Rightarrow> request_error + string"

record matrix_client =
  client_user_id :: string
  client_token :: string

datatype log_entry =
    TokenLoginFailed int string
  | LoginFailed int string
  | SetupFailed int string

text \<open>
  The part of the bot that login works on: \<^verbatim>\<open>self._auth_tokens\<close>, the mappings
  written to the session file, one for every call of \<^verbatim>\<open>save_json\<close>, and the
  warnings and errors logged.
\<close>

record session =
  auth_tokens :: "string \<rightharpoonup> string"
  saved :: "(string \<rightharpoonup> string) list"
  logged :: "log_entry list"

text \<open>
  Modelled from the spec: \<^verbatim>\<open>save_json\<close> of \<^verbatim>\<open>homeassistant.util.json\<close> is not
  among the sources. The specification's \<^verbatim>\<open>TokenStore.save\<close> persists the full
  mapping to the file; a call is recorded as the mapping it writes.
\<close>

definition save_json :: "(string \<rightharpoonup> string) \<Rightarrow> session \<Rightarrow> session" where
  "save_json tokens s = s\<lparr>saved := saved s @ [tokens]\<rparr>"

definition store_auth_token :: "string \<Rightarrow> string \<Rightarrow> session \<Rightarrow> session" where
  "store_auth_token user token s =
     (let s1 = s\<lparr>auth_tokens := (auth_tokens s)(user \<mapsto> token)\<rparr>
      in save_json (auth_tokens s1) s1)"

definition login_by_token ::
  "homeserver \<Rightarrow> string \<Rightarrow> string \<Rightarrow> request_error + matrix_client" where
  "login_by_token hs user token =
     (case hs_token_login hs user token of
        Some e \<Rightarrow> Inl e
      | None \<Rightarrow> Inr \<lparr>client_user_id = user, client_token = token\<rparr>)"

definition login_by_password ::
  "homeserver \<Rightarrow> string \<Rightarrow> string \<Rightarrow> session \<Rightarrow> (request_error + matrix_client) \<times> session" where
  "login_by_password hs user password s =
     (case hs_password_login hs user password of
        Inl e \<Rightarrow> (Inl e, s)
      | Inr token \<Rightarrow>
          (Inr \<lparr>client_user_id = user, client_token = token\<rparr>, store_auth_token user token s))"

definition login ::
  "homeserver \<Rightarrow> string \<Rightarrow> string \<Rightarrow> session \<Rightarrow> (request_error + matrix_client) \<times> session" where
  "login hs user password s =
     (let (client, s1) =
        (case auth_tokens s user of
           None \<Rightarrow> (None, s)
         | Some token \<Rightarrow>
             (case login_by_token hs user token of
                Inr c \<Rightarrow> (Some c, s)
              | Inl (code, content) \<Rightarrow>
                  (None, s\<lparr>logged := logged s @ [TokenLoginFailed code content]\<rparr>)))
      in case client of
           Some c \<Rightarrow> (Inr c, s1)
         | None \<Rightarrow>
             (case login_by_password hs user password s1 of
                (Inl (code, content), s2) \<Rightarrow>
                  (Inl (code, content), s2\<lparr>logged := logged s2 @ [LoginFailed code content]\<rparr>)
              | (Inr c, s2) \<Rightarrow> (Inr c, s2)))"

text \<open>\<^verbatim>\<open>async_setup_entry\<close> as far as login decides it: the error of
  \<^verbatim>\<open>init_client\<close> is logged and the setup returns \<^verbatim>\<open>False\<close> without a bot;
  otherwise the bot has its client and the setup returns \<^verbatim>\<open>True\<close>.\<close>

definition async_setup_entry ::
  "homeserver \<Rightarrow> string \<Rightarrow> string \<Rightarrow> session \<Rightarrow> bool \<times> matrix_client option \<times> session" where
  "async_setup_entry hs user password s =
     (case login hs user password s of
        (Inl (code, content), s1) \<Rightarrow>
          (False, None, s1\<lparr>logged := logged s1 @ [SetupFailed code content]\<rparr>)
      | (Inr c, s1) \<Rightarrow> (True, Some c, s1))"

text \<open>A server that rejects every stored token and accepts the password \<open>secret\<close>.\<close>

definition expiring_server :: homeserver where
  "expiring_server =
     \<lparr>hs_token_login = (\<lambda>user token. Some (401, ''Invalid macaroon'')),
      hs_password_login = (\<lambda>user password.
         if password = ''secret'' then Inr ''new-token'' else Inl (403, ''Invalid password''))\<rparr>"

definition stale_session :: session where
  "stale_session =
     \<lparr>auth_tokens = [''@bot:example.org'' \<mapsto> ''old-token''], saved = [], logged = []\<rparr>"

section \<open>Properties of the command table\<close>

lemma truthy_word_set_rooms [simp]: "truthy_word (set_rooms lrooms c) = truthy_word c"
  by (simp add: truthy_word_def set_rooms_def)



lemma find_SomeD: "find P xs = Some x \<Longrightarrow> P x \<and> x \<in> set xs"
  by (induction xs) (auto split: if_splits)

















section \<open>Properties of the message handler\<close>

lemma split_sep_not_Nil: "split_sep sep s \<noteq> []"
  by (induction s) (auto split: list.splits)

lemma ping_bot_word:
  "get_word_command (bot_word_commands ping_bot) ''!room:example.org'' ''ping''
     = Some ping_command"
  by (simp add: ping_bot_def MatrixBot_def ping_command_def set_rooms_def truthy_word_def
      get_word_command_def)

lemma ping_bot_expression:
  "get_expression_commands (bot_expression_commands ping_bot) r = []"
  by (simp add: ping_bot_def MatrixBot_def ping_command_def set_rooms_def truthy_word_def
      get_expression_commands_def)

text \<open>
  C1 as stated fails on two spaces in a row: the source splits with \<^verbatim>\<open>split(" ")\<close>,
  so the body \<^verbatim>\<open>"!ping  extra"\<close> gives the arguments \<^verbatim>\<open>["", "extra"]\<close>, while the
  tokens that remain after splitting on whitespace are \<^verbatim>\<open>["extra"]\<close>.
\<close>

theorem whitespace_split_counterexample:
  "handle_room_message ping_bot ''!room:example.org'' (text_event ''!ping  extra'') =
     ([\<lparr>ed_command = ''Ping'', ed_sender = ''@alice:example.org'',
        ed_room = ''!room:example.org'', ed_args = ArgList ['''', ''extra'']\<rparr>], None)
   \<and> tl (spec_split_whitespace ''!ping  extra'') = [''extra'']"
  by (simp add: handle_room_message_def word_command_events_def text_event_def ping_bot_word
      ping_bot_expression spec_split_whitespace_def is_whitespace_def)
     (simp add: ping_bot_def MatrixBot_def ping_command_def split: prod.splits)

text \<open>
  C1 (amended). For a text message in a room, not sent by the bot, whose body begins
  with \<open>!\<close>: the body is split at every single space character; the first piece without
  its first character is the trigger; if the word index of the room holds a command
  under that trigger, the handler fires first one event with that command's name and
  with the remaining pieces as arguments (an empty piece for every space that follows
  another space), and after it only what the expression commands of the room fire.
\<close>

theorem word_command_fires:
  assumes "ev_msgtype event = ''m.text''"
    and "ev_sender event \<noteq> mx_id self"
    and "ev_body event = CHR ''!'' # rest"
    and "get_word_command (bot_word_commands self) room_id
           (drop 1 (hd (split_sep (CHR '' '') (ev_body event)))) = Some c"
  shows "handle_room_message self room_id event =
     (\<lparr>ed_command = c_name c, ed_sender = ev_sender event, ed_room = room_id,
       ed_args = ArgList (tl (split_sep (CHR '' '') (ev_body event)))\<rparr>
      # fst (expression_command_events
             (get_expression_commands (bot_expression_commands self) room_id) room_id event),
      snd (expression_command_events
             (get_expression_commands (bot_expression_commands self) room_id) room_id event))"
proof -
  obtain p0 pieces where pieces: "split_sep (CHR '' '') (ev_body event) = p0 # pieces"
    using split_sep_not_Nil [of "CHR '' ''" "ev_body event"]
    by (cases "split_sep (CHR '' '') (ev_body event)") auto
  show ?thesis
    using assms pieces
    by (simp add: handle_room_message_def word_command_events_def split: prod.splits)
qed

text \<open>The body \<^verbatim>\<open>"!ping extra args"\<close> in the room of the word command \<open>ping\<close> named
  \<open>Ping\<close> fires exactly one event, \<open>Ping\<close> with the arguments \<open>extra\<close> and \<open>args\<close>.\<close>

theorem word_command_fires_witness:
  "handle_room_message ping_bot ''!room:example.org'' (text_event ''!ping extra args'') =
     ([\<lparr>ed_command = ''Ping'', ed_sender = ''@alice:example.org'',
        ed_room = ''!room:example.org'', ed_args = ArgList [''extra'', ''args'']\<rparr>], None)"
proof -
  have m: "ev_msgtype (text_event ''!ping extra args'') = ''m.text''"
    by (simp add: text_event_def)
  have s: "ev_sender (text_event ''!ping extra args'') \<noteq> mx_id ping_bot"
    by (simp add: text_event_def ping_bot_def MatrixBot_def split: prod.splits)
  have b: "ev_body (text_event ''!ping extra args'') = CHR ''!'' # ''ping extra args''"
    by (simp add: text_event_def)
  have w: "get_word_command (bot_word_commands ping_bot) ''!room:example.org''
      (drop 1 (hd (split_sep (CHR '' '') (ev_body (text_event ''!ping extra args'')))))
        = Some ping_command"
    using ping_bot_word by (simp add: text_event_def)
  show ?thesis
    using word_command_fires [OF m s b w]
    by (simp add: ping_bot_expression) (simp add: text_event_def ping_command_def)
qed

text \<open>
  C7. An event whose message type is not \<^verbatim>\<open>m.text\<close>, or whose sender is the bot's own
  identity, fires no event, whatever its body, and the handler returns normally.
\<close>

theorem ignored_events_fire_nothing:
  "ev_msgtype event \<noteq> ''m.text'' \<or> ev_sender event = mx_id self \<Longrightarrow>
     handle_room_message self room_id event = ([], None)"
  by (auto simp: handle_room_message_def)

text \<open>The body \<^verbatim>\<open>"!ping extra args"\<close> sent by the bot itself, and sent by another
  user as an image, in the room where \<open>ping\<close> is registered.\<close>

theorem ignored_events_fire_nothing_witness:
  "handle_room_message ping_bot ''!room:example.org''
     \<lparr>ev_msgtype = ''m.text'', ev_sender = ''@bot:example.org'',
      ev_body = ''!ping extra args''\<rparr> = ([], None)
   \<and> handle_room_message ping_bot ''!room:example.org''
     \<lparr>ev_msgtype = ''m.image'', ev_sender = ''@alice:example.org'',
      ev_body = ''!ping extra args''\<rparr> = ([], None)"
proof -
  have "mx_id ping_bot = ''@bot:example.org''"
    by (simp add: ping_bot_def MatrixBot_def split: prod.splits)
  then show ?thesis
    using ignored_events_fire_nothing
        [of "\<lparr>ev_msgtype = ''m.text'', ev_sender = ''@bot:example.org'',
              ev_body = ''!ping extra args''\<rparr>" ping_bot "''!room:example.org''"]
      ignored_events_fire_nothing
        [of "\<lparr>ev_msgtype = ''m.image'', ev_sender = ''@alice:example.org'',
              ev_body = ''!ping extra args''\<rparr>" ping_bot "''!room:example.org''"]
    by simp
qed

text \<open>
  C10. A text message with the empty body, not sent by the bot, makes the handler leave
  with an index error at \<^verbatim>\<open>body[0]\<close>, before any event is fired.
\<close>

theorem empty_body_raises:
  assumes "ev_msgtype event = ''m.text''"
    and "ev_sender event \<noteq> mx_id self"
    and "ev_body event = []"
  shows "handle_room_message self room_id event = ([], Some IndexError)"
  using assms by (simp add: handle_room_message_def)

theorem empty_body_raises_witness:
  "handle_room_message ping_bot ''!room:example.org'' (text_event []) = ([], Some IndexError)"
proof -
  have "ev_sender (text_event []) \<noteq> mx_id ping_bot"
    by (simp add: text_event_def ping_bot_def MatrixBot_def split: prod.splits)
  then show ?thesis
    using empty_body_raises [of "text_event []" ping_bot "''!room:example.org''"]
    by (simp add: text_event_def)
qed

lemma echo_bot_expression:
  "get_expression_commands (bot_expression_commands echo_bot) ''!room:example.org''
     = [echo_command\<lparr>c_rooms := [''!room:example.org'']\<rparr>]"
  by (simp add: echo_bot_def MatrixBot_def echo_command_def set_rooms_def truthy_word_def
      get_expression_commands_def)

text \<open>
  C3 at the empty body. The room has one expression command, whose pattern matches the
  empty string at its start; a text message with the empty body, sent by another user,
  fires nothing, because the handler has left with the index error of \<^verbatim>\<open>body[0]\<close>
  before the loop over the expression commands.
\<close>

theorem empty_body_skips_expressions:
  "handle_room_message echo_bot ''!room:example.org'' (text_event []) = ([], Some IndexError)
   \<and> get_expression_commands (bot_expression_commands echo_bot) ''!room:example.org''
     = [echo_command\<lparr>c_rooms := [''!room:example.org'']\<rparr>]
   \<and> c_expression echo_command = Some empty_pattern \<and> empty_pattern [] = Some []"
  by (simp add: echo_bot_expression)
     (simp add: handle_room_message_def text_event_def echo_bot_def MatrixBot_def
       echo_command_def empty_pattern_def split: prod.splits)

text \<open>For every other body the loop runs as C3 says: each expression command of the
  room whose pattern matches the body fires one event with the named groups, in the
  order of the room's list, after the event of the word command if there is one.\<close>

lemma expression_command_events_all:
  "\<forall>c\<in>set cmds. c_expression c \<noteq> None \<Longrightarrow>
     expression_command_events cmds room_id event
       = (List.map_filter (fired_by room_id event) cmds, None)"
  by (induction cmds) (auto simp: List.map_filter_def fired_by_def split: option.splits)

text \<open>A command without a pattern in the room's list (one whose word is the empty
  string) ends the loop with a key error.\<close>

lemma expression_without_pattern_raises:
  "c_expression c = None \<Longrightarrow>
     expression_command_events (c # cmds) room_id event = ([], Some KeyError)"
  by simp

lemma expression_commands_fire_in_order:
  assumes "ev_msgtype event = ''m.text''" and "ev_sender event \<noteq> mx_id self"
    and "ev_body event \<noteq> []"
    and "\<forall>c\<in>set (get_expression_commands (bot_expression_commands self) room_id).
           c_expression c \<noteq> None"
  shows "\<exists>fired_word. length fired_word \<le> 1 \<and>
     handle_room_message self room_id event =
       (fired_word @ List.map_filter (fired_by room_id event)
          (get_expression_commands (bot_expression_commands self) room_id), None)"
proof -
  obtain b0 rest where body: "ev_body event = b0 # rest"
    using assms(3) by (cases "ev_body event") auto
  obtain p0 pieces where pieces: "split_sep (CHR '' '') (ev_body event) = p0 # pieces"
    using split_sep_not_Nil [of "CHR '' ''" "ev_body event"]
    by (cases "split_sep (CHR '' '') (ev_body event)") auto
  show ?thesis
    using assms(1,2) body pieces expression_command_events_all [OF assms(4), of room_id event]
    by (auto simp: handle_room_message_def word_command_events_def split: option.splits)
qed

section \<open>Properties of resolving rooms\<close>

lemma join_calls_append: "join_calls (xs @ ys) = join_calls xs @ join_calls ys"
  by (induction xs rule: join_calls.induct) auto

lemma update_aliases_id [simp]: "r_room_id (update_aliases t room) = r_room_id room"
  by (simp add: update_aliases_def split: option.splits)

lemma update_aliases_idem [simp]: "update_aliases t (update_aliases t room) = update_aliases t room"
  by (simp add: update_aliases_def split: option.splits)

lemma search_rooms_fetched_mono:
  "search_rooms t ref rooms fetched = (found, rooms', fetched', cs) \<Longrightarrow> fetched \<subseteq> fetched'"
proof (induction rooms arbitrary: fetched found rooms' fetched' cs)
  case Nil
  then show ?case by simp
next
  case (Cons room rest)
  then show ?case
    by (fastforce simp: Let_def split: if_splits prod.splits)
qed

lemma search_rooms_ids:
  "search_rooms t ref rooms fetched = (found, rooms', fetched', cs) \<Longrightarrow>
     map r_room_id rooms' = map r_room_id rooms"
proof (induction rooms arbitrary: fetched found rooms' fetched' cs)
  case Nil
  then show ?case by simp
next
  case (Cons room rest)
  then show ?case
    by (fastforce simp: Let_def split: if_splits prod.splits)
qed

lemma search_rooms_fetched_ids:
  "search_rooms t ref rooms fetched = (found, rooms', fetched', cs) \<Longrightarrow>
     fetched' \<subseteq> fetched \<union> r_room_id ` set rooms"
proof (induction rooms arbitrary: fetched found rooms' fetched' cs)
  case Nil
  then show ?case by simp
next
  case (Cons room rest)
  then show ?case
    by (fastforce simp: Let_def split: if_splits prod.splits)
qed

lemma search_rooms_no_join:
  "search_rooms t ref rooms fetched = (found, rooms', fetched', cs) \<Longrightarrow> join_calls cs = []"
proof (induction rooms arbitrary: fetched found rooms' fetched' cs)
  case Nil
  then show ?case by simp
next
  case (Cons room rest)
  then show ?case
    by (fastforce simp: Let_def join_calls_append split: if_splits prod.splits)
qed

lemma search_rooms_found:
  "search_rooms t ref rooms fetched = (Some room, rooms', fetched', cs) \<Longrightarrow>
     room \<in> set rooms' \<and> ref \<in> set (r_aliases room) \<and> r_room_id room \<in> fetched'"
proof (induction rooms arbitrary: fetched rooms' fetched' cs)
  case Nil
  then show ?case by simp
next
  case (Cons r rest)
  then show ?case
    by (fastforce simp: Let_def split: if_splits prod.splits)
qed

lemma search_rooms_not_found:
  "search_rooms t ref rooms fetched = (None, rooms', fetched', cs) \<Longrightarrow>
     \<forall>room\<in>set rooms'. ref \<notin> set (r_aliases room) \<and> r_room_id room \<in> fetched'"
proof (induction rooms arbitrary: fetched rooms' fetched' cs)
  case Nil
  then show ?case by simp
next
  case (Cons r rest)
  show ?case
  proof (cases "r_room_id r \<in> fetched")
    case True
    with Cons.prems obtain rest' where
      rec: "search_rooms t ref rest fetched = (None, rest', fetched', cs)"
      and rooms': "rooms' = r # rest'" and no: "ref \<notin> set (r_aliases r)"
      by (auto simp: Let_def split: if_splits prod.splits)
    from search_rooms_fetched_mono [OF rec] True have "r_room_id r \<in> fetched'" by auto
    with Cons.IH [OF rec] rooms' no show ?thesis by simp
  next
    case False
    with Cons.prems obtain rest' cs2 where
      rec: "search_rooms t ref rest (insert (r_room_id r) fetched) = (None, rest', fetched', cs2)"
      and rooms': "rooms' = update_aliases t r # rest'"
      and no: "ref \<notin> set (r_aliases (update_aliases t r))"
      by (auto simp: Let_def split: if_splits prod.splits)
    from search_rooms_fetched_mono [OF rec] have "r_room_id r \<in> fetched'" by auto
    with Cons.IH [OF rec] rooms' no show ?thesis by simp
  qed
qed

lemma search_rooms_cached:
  assumes "room \<in> set rooms" and "r_room_id room \<in> fetched" and "ref \<in> set (r_aliases room)"
  shows "fst (search_rooms t ref rooms fetched) \<noteq> None"
  using assms
proof (induction rooms arbitrary: fetched)
  case Nil
  then show ?case by simp
next
  case (Cons r rest)
  show ?case
  proof (cases "room = r")
    case True
    with Cons.prems show ?thesis by (simp add: Let_def)
  next
    case False
    with Cons.prems have in_rest: "room \<in> set rest" by simp
    show ?thesis
    proof (cases "r_room_id r \<in> fetched")
      case True
      with Cons.IH [OF in_rest Cons.prems(2,3)] show ?thesis
        by (cases "search_rooms t ref rest fetched") (auto simp: Let_def)
    next
      case False
      have "r_room_id room \<in> insert (r_room_id r) fetched" using Cons.prems(2) by simp
      from Cons.IH [OF in_rest this Cons.prems(3)] False show ?thesis
        by (cases "search_rooms t ref rest (insert (r_room_id r) fetched)") (auto simp: Let_def)
    qed
  qed
qed

lemma search_rooms_append:
  assumes "\<forall>room\<in>set xs. r_room_id room \<in> fetched \<and> ref \<notin> set (r_aliases room)"
  shows "search_rooms t ref (xs @ ys) fetched =
     (case search_rooms t ref ys fetched of
        (found, ys', fetched', cs) \<Rightarrow> (found, xs @ ys', fetched', cs))"
  using assms by (induction xs) (auto simp: Let_def split: prod.splits)

lemma search_rooms_cache_ok:
  assumes "search_rooms t ref rooms fetched = (found, rooms', fetched', cs)"
    and "distinct (map r_room_id rooms)"
    and "\<forall>room\<in>set rooms. r_room_id room \<in> fetched \<longrightarrow> update_aliases t room = room"
  shows "\<forall>room\<in>set rooms'. r_room_id room \<in> fetched' \<longrightarrow> update_aliases t room = room"
  using assms
proof (induction rooms arbitrary: fetched found rooms' fetched' cs)
  case Nil
  then show ?case by simp
next
  case (Cons r rest)
  let ?r1 = "if r_room_id r \<in> fetched then r else update_aliases t r"
  let ?f1 = "if r_room_id r \<in> fetched then fetched else insert (r_room_id r) fetched"
  have r1_ok: "update_aliases t ?r1 = ?r1"
    using Cons.prems(3) by simp
  have rest_ok: "\<forall>room\<in>set rest. r_room_id room \<in> ?f1 \<longrightarrow> update_aliases t room = room"
    using Cons.prems(2,3) by (auto simp: image_iff)
  have rest_ok0: "\<forall>room\<in>set rest. r_room_id room \<in> fetched \<longrightarrow> update_aliases t room = room"
    using Cons.prems(3) by auto
  show ?case
  proof (cases "ref \<in> set (r_aliases ?r1)")
    case True
    with Cons.prems(1) have "rooms' = ?r1 # rest" "fetched' = ?f1"
      by (auto simp: Let_def split: if_splits)
    with r1_ok rest_ok show ?thesis by auto
  next
    case False
    with Cons.prems(1) obtain rest' cs2 where
      rec: "search_rooms t ref rest ?f1 = (found, rest', fetched', cs2)"
      and rooms': "rooms' = ?r1 # rest'"
      by (auto simp: Let_def split: if_splits prod.splits)
    have d: "distinct (map r_room_id rest)" using Cons.prems(2) by simp
    from Cons.IH [OF rec d rest_ok]
    have "\<forall>room\<in>set rest'. r_room_id room \<in> fetched' \<longrightarrow> update_aliases t room = room" .
    with rooms' r1_ok show ?thesis by auto
  qed
qed

lemma reachable_resolves_locally:
  assumes "reachable st ref"
  shows "resolves_locally t st ref"
proof -
  from assms consider
    (by_id) room where "room \<in> set (cl_rooms st)" "r_room_id room = ref"
  | (by_alias) room where "room \<in> set (cl_rooms st)" "r_room_id room \<in> aliases_fetched_for st"
      "ref \<in> set (r_aliases room)"
    unfolding reachable_def by blast
  then show ?thesis
  proof cases
    case by_id
    then have "find (\<lambda>r. r_room_id r = ref) (cl_rooms st) \<noteq> None"
      by (auto simp: find_None_iff)
    then show ?thesis by (simp add: resolves_locally_def)
  next
    case by_alias
    then show ?thesis
      using search_rooms_cached [of room "cl_rooms st" "aliases_fetched_for st" ref t]
      by (simp add: resolves_locally_def)
  qed
qed

lemma join_or_get_room_local:
  assumes "resolves_locally t st ref"
  shows "\<exists>room st'. join_or_get_room t st ref = (Inr room, st')
     \<and> room \<in> set (cl_rooms st')
     \<and> (r_room_id room = ref \<or> ref \<in> set (r_aliases room))
     \<and> join_calls (calls st') = join_calls (calls st)
     \<and> resolves_locally t st' ref"
proof (cases "find (\<lambda>r. r_room_id r = ref) (cl_rooms st)")
  case (Some room)
  then have "join_or_get_room t st ref = (Inr room, st)"
    by (simp add: join_or_get_room_def)
  moreover have "room \<in> set (cl_rooms st)" "r_room_id room = ref"
    using find_SomeD [OF Some] by simp_all
  ultimately show ?thesis using assms by blast
next
  case None
  obtain found rooms1 fetched1 cs where
    s: "search_rooms t ref (cl_rooms st) (aliases_fetched_for st) = (found, rooms1, fetched1, cs)"
    by (cases "search_rooms t ref (cl_rooms st) (aliases_fetched_for st)") auto
  with assms None obtain room where found: "found = Some room"
    by (auto simp: resolves_locally_def)
  let ?st1 = "st\<lparr>cl_rooms := rooms1, aliases_fetched_for := fetched1, calls := calls st @ cs\<rparr>"
  have res: "join_or_get_room t st ref = (Inr room, ?st1)"
    using None s found by (simp add: join_or_get_room_def)
  have props: "room \<in> set rooms1" "ref \<in> set (r_aliases room)" "r_room_id room \<in> fetched1"
    using search_rooms_found [OF s [unfolded found]] by simp_all
  have "join_calls (calls ?st1) = join_calls (calls st)"
    using search_rooms_no_join [OF s] by (simp add: join_calls_append)
  moreover have "resolves_locally t ?st1 ref"
    using search_rooms_cached [OF props(1,3,2), of t] by (simp add: resolves_locally_def)
  ultimately show ?thesis using res props by force
qed

lemma join_or_get_room_join:
  assumes "\<not> resolves_locally t st ref"
  shows "join_calls (calls (snd (join_or_get_room t st ref))) = join_calls (calls st) @ [ref]"
proof -
  have None: "find (\<lambda>r. r_room_id r = ref) (cl_rooms st) = None"
    using assms by (simp add: resolves_locally_def)
  obtain found rooms1 fetched1 cs where
    s: "search_rooms t ref (cl_rooms st) (aliases_fetched_for st) = (found, rooms1, fetched1, cs)"
    by (cases "search_rooms t ref (cl_rooms st) (aliases_fetched_for st)") auto
  with assms have found: "found = None"
    by (simp add: resolves_locally_def)
  show ?thesis
    using None s found search_rooms_no_join [OF s]
    by (cases "api_join_room t ref")
       (simp_all add: join_or_get_room_def join_calls_append Let_def)
qed

lemma mkroom_has_id: "\<exists>room\<in>set (mkroom rid rooms). r_room_id room = rid"
proof (cases "rid \<in> r_room_id ` set rooms")
  case True
  then obtain x where x: "x \<in> set rooms" "r_room_id x = rid" by auto
  then have "\<lparr>r_room_id = rid, r_aliases = []\<rparr> \<in> set (mkroom rid rooms)"
    using True by (force simp: mkroom_def)
  then show ?thesis by force
next
  case False
  then show ?thesis by (simp add: mkroom_def)
qed

lemma find_id_mkroom: "find (\<lambda>r. r_room_id r = rid) (mkroom rid rooms) \<noteq> None"
  using mkroom_has_id [of rid rooms] by (auto simp: find_None_iff)

lemma join_or_get_room_joined:
  assumes ok: "alias_cache_ok t st" and ans: "join_answers t ref"
    and not: "\<not> resolves_locally t st ref"
  shows "resolves_locally t (snd (join_or_get_room t st ref)) ref"
proof -
  have None: "find (\<lambda>r. r_room_id r = ref) (cl_rooms st) = None"
    using not by (simp add: resolves_locally_def)
  obtain found rooms1 fetched1 cs where
    s: "search_rooms t ref (cl_rooms st) (aliases_fetched_for st) = (found, rooms1, fetched1, cs)"
    by (cases "search_rooms t ref (cl_rooms st) (aliases_fetched_for st)") auto
  with not have found: "found = None"
    by (simp add: resolves_locally_def)
  from ans obtain rid where rid: "api_join_room t ref = Inr rid"
    and rid_ref: "rid = ref \<or> (\<exists>as. api_get_aliases t rid = Some as \<and> ref \<in> set as)"
    by (auto simp: join_answers_def split: sum.splits option.splits)
  let ?st' = "st\<lparr>cl_rooms := mkroom rid rooms1, aliases_fetched_for := fetched1,
                  calls := calls st @ cs @ [JoinRoom ref]\<rparr>"
  have res: "snd (join_or_get_room t st ref) = ?st'"
    using None s found rid by (simp add: join_or_get_room_def)
  have all: "\<forall>room\<in>set rooms1. ref \<notin> set (r_aliases room) \<and> r_room_id room \<in> fetched1"
    using search_rooms_not_found [OF s [unfolded found]] .
  show ?thesis
  proof (cases "rid = ref")
    case True
    then show ?thesis
      unfolding res using find_id_mkroom [of ref rooms1] by (simp add: resolves_locally_def)
  next
    case False
    with rid_ref obtain as where as: "api_get_aliases t rid = Some as" "ref \<in> set as"
      by auto
    have cache: "\<forall>room\<in>set rooms1. r_room_id room \<in> fetched1 \<longrightarrow> update_aliases t room = room"
      using search_rooms_cache_ok [OF s] ok by (simp add: alias_cache_ok_def)
    have new_id: "rid \<notin> r_room_id ` set rooms1"
    proof
      assume "rid \<in> r_room_id ` set rooms1"
      then obtain room where room: "room \<in> set rooms1" "r_room_id room = rid" by auto
      with all cache have u: "update_aliases t room = room" and n: "ref \<notin> set (r_aliases room)"
        by auto
      have "r_aliases (update_aliases t room) = as"
        using as(1) room(2) by (simp add: update_aliases_def)
      then show False using u n as(2) by simp
    qed
    have "fetched1 \<subseteq> aliases_fetched_for st \<union> r_room_id ` set (cl_rooms st)"
      using search_rooms_fetched_ids [OF s] .
    moreover have "r_room_id ` set rooms1 = r_room_id ` set (cl_rooms st)"
      using search_rooms_ids [OF s] by (metis set_map)
    ultimately have "fetched1 \<subseteq> r_room_id ` set rooms1"
      using ok by (auto simp: alias_cache_ok_def)
    with new_id have not_fetched: "rid \<notin> fetched1" by auto
    have mk: "mkroom rid rooms1 = rooms1 @ [\<lparr>r_room_id = rid, r_aliases = []\<rparr>]"
      using new_id by (simp add: mkroom_def)
    have pre: "\<forall>room\<in>set rooms1. r_room_id room \<in> fetched1 \<and> ref \<notin> set (r_aliases room)"
      using all by auto
    have "fst (search_rooms t ref (mkroom rid rooms1) fetched1) \<noteq> None"
      unfolding mk search_rooms_append [OF pre]
      using not_fetched as by (simp add: Let_def update_aliases_def)
    then show ?thesis
      unfolding res by (simp add: resolves_locally_def)
  qed
qed

lemma resolve_refs_local:
  "resolves_locally t st ref \<Longrightarrow>
     join_calls (calls (resolve_refs t st (replicate n ref))) = join_calls (calls st)"
proof (induction n arbitrary: st)
  case 0
  then show ?case by simp
next
  case (Suc n)
  from join_or_get_room_local [OF Suc.prems] obtain room st' where
    r: "join_or_get_room t st ref = (Inr room, st')"
    and j: "join_calls (calls st') = join_calls (calls st)"
    and l: "resolves_locally t st' ref"
    by blast
  from Suc.IH [OF l] r j show ?case by simp
qed

lemma resolve_refs_once:
  assumes "alias_cache_ok t st" and "join_answers t ref"
  shows "length (join_calls (calls (resolve_refs t st (replicate n ref))))
           \<le> length (join_calls (calls st)) + 1"
proof (cases "resolves_locally t st ref")
  case True
  then show ?thesis by (simp add: resolve_refs_local)
next
  case False
  show ?thesis
  proof (cases n)
    case 0
    then show ?thesis by simp
  next
    case (Suc k)
    let ?st' = "snd (join_or_get_room t st ref)"
    have "resolves_locally t ?st' ref"
      using join_or_get_room_joined [OF assms False] .
    then have "join_calls (calls (resolve_refs t ?st' (replicate k ref))) = join_calls (calls ?st')"
      by (rule resolve_refs_local)
    then show ?thesis
      using Suc join_or_get_room_join [OF False] by simp
  qed
qed

text \<open>
  C2 at a server that lists no alias for the joined room. The server resolves the alias
  \<open>#home\<close> to the room \<open>!h\<close> and lists no alias for that room. The first resolve of
  \<open>#home\<close> joins, and the client then has the room \<open>!h\<close>. The second resolve fetches
  the aliases of \<open>!h\<close>, does not find \<open>#home\<close> among them and issues the join call
  again, for a room the client is in already: two join calls for two resolves of one
  alias, where the claim allows one and the function's own description says that a room
  the client is in must not be joined again.
\<close>

theorem repeated_resolve_joins_twice:
  "api_join_room silent_server ''#home:example.org'' = Inr ''!h:example.org''
   \<and> cl_rooms (resolve_refs silent_server fresh_state [''#home:example.org''])
     = [\<lparr>r_room_id = ''!h:example.org'', r_aliases = []\<rparr>]
   \<and> calls (resolve_refs silent_server fresh_state [''#home:example.org''])
     = [JoinRoom ''#home:example.org'']
   \<and> calls (resolve_refs silent_server fresh_state
              [''#home:example.org'', ''#home:example.org''])
     = [JoinRoom ''#home:example.org'', UpdateAliases ''!h:example.org'',
        JoinRoom ''#home:example.org'']"
  by (simp add: silent_server_def fresh_state_def join_or_get_room_def mkroom_def
      update_aliases_def)

text \<open>
  What the resolver does guarantee. A reference that is reachable, as the id of a
  joined room or as an alias already fetched for a joined room, is resolved to a joined
  room with that id or that alias, and neither this resolve nor any number of further
  resolves of it issues a join call. A resolve issues a join call, and then exactly
  one, for its reference, only when the reference is not reachable. Repeated resolves
  of one reference issue at most one join call in total when the alias cache agrees
  with the server and the server joins the reference to a room that is the reference
  itself or lists it among its aliases.
\<close>

theorem resolve_joins_once:
  "(reachable st ref \<longrightarrow>
      (\<exists>room st'. join_or_get_room t st ref = (Inr room, st')
         \<and> room \<in> set (cl_rooms st')
         \<and> (r_room_id room = ref \<or> ref \<in> set (r_aliases room))
         \<and> join_calls (calls st') = join_calls (calls st))
      \<and> join_calls (calls (resolve_refs t st (replicate n ref))) = join_calls (calls st))
   \<and> (join_calls (calls (snd (join_or_get_room t st ref))) \<noteq> join_calls (calls st) \<longrightarrow>
        \<not> reachable st ref
        \<and> join_calls (calls (snd (join_or_get_room t st ref))) = join_calls (calls st) @ [ref])
   \<and> (alias_cache_ok t st \<and> join_answers t ref \<longrightarrow>
        length (join_calls (calls (resolve_refs t st (replicate n ref))))
          \<le> length (join_calls (calls st)) + 1)"
proof -
  have first: "(\<exists>room st'. join_or_get_room t st ref = (Inr room, st')
         \<and> room \<in> set (cl_rooms st')
         \<and> (r_room_id room = ref \<or> ref \<in> set (r_aliases room))
         \<and> join_calls (calls st') = join_calls (calls st))
      \<and> join_calls (calls (resolve_refs t st (replicate n ref))) = join_calls (calls st)"
    if "reachable st ref"
  proof -
    have l: "resolves_locally t st ref"
      using that by (rule reachable_resolves_locally)
    from join_or_get_room_local [OF l] resolve_refs_local [OF l] show ?thesis
      by blast
  qed
  have second: "\<not> reachable st ref
        \<and> join_calls (calls (snd (join_or_get_room t st ref))) = join_calls (calls st) @ [ref]"
    if j: "join_calls (calls (snd (join_or_get_room t st ref))) \<noteq> join_calls (calls st)"
  proof -
    have n: "\<not> resolves_locally t st ref"
    proof
      assume "resolves_locally t st ref"
      from join_or_get_room_local [OF this] j show False by auto
    qed
    then have "\<not> reachable st ref"
      using reachable_resolves_locally by blast
    with join_or_get_room_join [OF n] show ?thesis by simp
  qed
  have third: "length (join_calls (calls (resolve_refs t st (replicate n ref))))
          \<le> length (join_calls (calls st)) + 1"
    if "alias_cache_ok t st" "join_answers t ref"
    using that by (rule resolve_refs_once)
  show ?thesis
    using first second third by blast
qed

text \<open>With a server that lists \<open>#home\<close> for \<open>!h\<close>: the alias is reachable in a state
  where \<open>!h\<close> is joined and fetched, and resolving it there joins nothing; from the
  fresh state, where it is not reachable, three resolves issue one join call.\<close>

theorem resolve_joins_once_witness:
  "reachable home_state ''#home:example.org''
   \<and> join_calls (calls (resolve_refs listing_server home_state
                           (replicate 3 ''#home:example.org''))) = []
   \<and> \<not> reachable fresh_state ''#home:example.org''
   \<and> alias_cache_ok listing_server fresh_state
   \<and> join_answers listing_server ''#home:example.org''
   \<and> length (join_calls (calls (resolve_refs listing_server fresh_state
                                   (replicate 3 ''#home:example.org'')))) \<le> 1"
proof -
  have r: "reachable home_state ''#home:example.org''"
    by (simp add: reachable_def home_state_def)
  have c: "calls home_state = []" "calls fresh_state = []"
    by (simp_all add: home_state_def fresh_state_def)
  have ok: "alias_cache_ok listing_server fresh_state"
    by (simp add: alias_cache_ok_def fresh_state_def)
  have ans: "join_answers listing_server ''#home:example.org''"
    by (simp add: join_answers_def listing_server_def)
  have j: "join_calls (calls (snd (join_or_get_room listing_server fresh_state
             ''#home:example.org''))) \<noteq> join_calls (calls fresh_state)"
    by (simp add: join_or_get_room_def fresh_state_def listing_server_def)
  show ?thesis
    using resolve_joins_once [of home_state "''#home:example.org''" listing_server 3]
      resolve_joins_once [of fresh_state "''#home:example.org''" listing_server 3]
      r c ok ans j
    by simp
qed

section \<open>Properties of the alias cache\<close>

lemma search_rooms_fetch_count:
  "search_rooms t ref rooms fetched = (found, rooms', fetched', cs) \<Longrightarrow>
     count_list cs (UpdateAliases rid) + (if rid \<in> fetched' then 0 else 1)
       \<le> (if rid \<in> fetched then 0 else (1::nat))"
proof (induction rooms arbitrary: fetched found rooms' fetched' cs)
  case Nil
  then show ?case by simp
next
  case (Cons r rest)
  show ?case
  proof (cases "r_room_id r \<in> fetched")
    case True
    show ?thesis
    proof (cases "ref \<in> set (r_aliases r)")
      case yes: True
      with True Cons.prems show ?thesis by (auto simp: Let_def)
    next
      case no: False
      with True Cons.prems obtain rest' where
        rec: "search_rooms t ref rest fetched = (found, rest', fetched', cs)"
        by (auto simp: Let_def split: prod.splits)
      from Cons.IH [OF rec] show ?thesis .
    qed
  next
    case False
    let ?f1 = "insert (r_room_id r) fetched"
    show ?thesis
    proof (cases "ref \<in> set (r_aliases (update_aliases t r))")
      case yes: True
      with False Cons.prems have "fetched' = ?f1" "cs = [UpdateAliases (r_room_id r)]"
        by (auto simp: Let_def)
      then show ?thesis using False by auto
    next
      case no: False
      with False Cons.prems obtain rest' cs2 where
        rec: "search_rooms t ref rest ?f1 = (found, rest', fetched', cs2)"
        and cs: "cs = UpdateAliases (r_room_id r) # cs2"
        by (auto simp: Let_def split: prod.splits)
      from Cons.IH [OF rec] show ?thesis
        using False cs by (auto split: if_splits)
    qed
  qed
qed

lemma join_or_get_room_calls:
  "\<exists>cs. calls (snd (join_or_get_room t st ref)) = calls st @ cs
     \<and> count_list cs (UpdateAliases rid)
         + (if rid \<in> aliases_fetched_for (snd (join_or_get_room t st ref)) then 0 else 1)
       \<le> (if rid \<in> aliases_fetched_for st then 0 else (1::nat))"
proof (cases "find (\<lambda>r. r_room_id r = ref) (cl_rooms st)")
  case (Some room)
  then have "snd (join_or_get_room t st ref) = st"
    by (simp add: join_or_get_room_def)
  then show ?thesis by simp
next
  case None
  obtain found rooms1 fetched1 cs where
    s: "search_rooms t ref (cl_rooms st) (aliases_fetched_for st) = (found, rooms1, fetched1, cs)"
    by (cases "search_rooms t ref (cl_rooms st) (aliases_fetched_for st)") auto
  note cnt = search_rooms_fetch_count [OF s, of rid]
  show ?thesis
  proof (cases found)
    case (Some room)
    then have "snd (join_or_get_room t st ref)
        = st\<lparr>cl_rooms := rooms1, aliases_fetched_for := fetched1, calls := calls st @ cs\<rparr>"
      using None s by (simp add: join_or_get_room_def)
    then show ?thesis using cnt by simp
  next
    case found_None: None
    have "calls (snd (join_or_get_room t st ref)) = calls st @ (cs @ [JoinRoom ref])
      \<and> aliases_fetched_for (snd (join_or_get_room t st ref)) = fetched1"
      using None s found_None
      by (cases "api_join_room t ref") (simp_all add: join_or_get_room_def Let_def)
    then show ?thesis using cnt by auto
  qed
qed

lemma resolve_refs_calls:
  "\<exists>cs. calls (resolve_refs t st refs) = calls st @ cs
     \<and> count_list cs (UpdateAliases rid)
         + (if rid \<in> aliases_fetched_for (resolve_refs t st refs) then 0 else 1)
       \<le> (if rid \<in> aliases_fetched_for st then 0 else (1::nat))"
proof (induction refs arbitrary: st)
  case Nil
  then show ?case by simp
next
  case (Cons ref refs)
  let ?st1 = "snd (join_or_get_room t st ref)"
  from join_or_get_room_calls [of t st ref rid] obtain cs1 where
    c1: "calls ?st1 = calls st @ cs1"
    and n1: "count_list cs1 (UpdateAliases rid)
         + (if rid \<in> aliases_fetched_for ?st1 then 0 else 1)
       \<le> (if rid \<in> aliases_fetched_for st then 0 else (1::nat))"
    by blast
  from Cons.IH [of ?st1] obtain cs2 where
    c2: "calls (resolve_refs t ?st1 refs) = calls ?st1 @ cs2"
    and n2: "count_list cs2 (UpdateAliases rid)
         + (if rid \<in> aliases_fetched_for (resolve_refs t ?st1 refs) then 0 else 1)
       \<le> (if rid \<in> aliases_fetched_for ?st1 then 0 else (1::nat))"
    by blast
  have "calls (resolve_refs t st (ref # refs)) = calls st @ (cs1 @ cs2)"
    using c1 c2 by simp
  moreover have "count_list (cs1 @ cs2) (UpdateAliases rid)
         + (if rid \<in> aliases_fetched_for (resolve_refs t st (ref # refs)) then 0 else 1)
       \<le> (if rid \<in> aliases_fetched_for st then 0 else (1::nat))"
    using n1 n2 by (auto split: if_splits)
  ultimately show ?case by blast
qed

text \<open>
  C6. Over any sequence of resolve calls, whatever the references: once the id of a
  room is in the set of fetched ids, no resolve fetches the aliases of that room again
  (the number of alias fetches for it stays what it was), and for a room whose aliases
  were never fetched the alias fetch is invoked at most once.
\<close>

theorem aliases_fetched_at_most_once:
  "(rid \<in> aliases_fetched_for st \<longrightarrow>
      count_list (calls (resolve_refs t st refs)) (UpdateAliases rid)
        = count_list (calls st) (UpdateAliases rid))
   \<and> (count_list (calls st) (UpdateAliases rid) = 0 \<longrightarrow>
      count_list (calls (resolve_refs t st refs)) (UpdateAliases rid) \<le> 1)"
proof -
  from resolve_refs_calls [of t st refs rid] obtain cs where
    c: "calls (resolve_refs t st refs) = calls st @ cs"
    and n: "count_list cs (UpdateAliases rid)
         + (if rid \<in> aliases_fetched_for (resolve_refs t st refs) then 0 else 1)
       \<le> (if rid \<in> aliases_fetched_for st then 0 else (1::nat))"
    by blast
  show ?thesis
    using c n by (auto split: if_splits)
qed

text \<open>Three resolves of unseen references against a client that has joined \<open>!h\<close>:
  the aliases of \<open>!h\<close> are fetched by the first and by no later one.\<close>

theorem aliases_fetched_at_most_once_witness:
  "count_list (calls (resolve_refs silent_server
      \<lparr>cl_rooms = [\<lparr>r_room_id = ''!h:example.org'', r_aliases = []\<rparr>],
       aliases_fetched_for = {}, calls = []\<rparr>
      [''#a:example.org'', ''#b:example.org'', ''#c:example.org'']))
     (UpdateAliases ''!h:example.org'') = 1
   \<and> count_list (calls (resolve_refs silent_server home_state
      [''#a:example.org'', ''#b:example.org''])) (UpdateAliases ''!h:example.org'') = 0"
proof -
  have "count_list (calls (resolve_refs silent_server
      \<lparr>cl_rooms = [\<lparr>r_room_id = ''!h:example.org'', r_aliases = []\<rparr>],
       aliases_fetched_for = {}, calls = []\<rparr>
      [''#a:example.org''])) (UpdateAliases ''!h:example.org'') = 1"
    by (simp add: silent_server_def join_or_get_room_def update_aliases_def)
  moreover have "count_list (calls (resolve_refs silent_server
      \<lparr>cl_rooms = [\<lparr>r_room_id = ''!h:example.org'', r_aliases = []\<rparr>],
       aliases_fetched_for = {}, calls = []\<rparr>
      [''#a:example.org''])) (UpdateAliases ''!h:example.org'')
     \<le> count_list (calls (resolve_refs silent_server
      \<lparr>cl_rooms = [\<lparr>r_room_id = ''!h:example.org'', r_aliases = []\<rparr>],
       aliases_fetched_for = {}, calls = []\<rparr>
      [''#a:example.org'', ''#b:example.org'', ''#c:example.org'']))
     (UpdateAliases ''!h:example.org'')"
    by (simp add: silent_server_def join_or_get_room_def update_aliases_def)
  moreover have "''!h:example.org'' \<in> aliases_fetched_for home_state"
    "count_list (calls home_state) (UpdateAliases ''!h:example.org'') = 0"
    by (simp_all add: home_state_def)
  ultimately show ?thesis
    using aliases_fetched_at_most_once [of "''!h:example.org''"
        "\<lparr>cl_rooms = [\<lparr>r_room_id = ''!h:example.org'', r_aliases = []\<rparr>],
          aliases_fetched_for = {}, calls = []\<rparr>" silent_server
        "[''#a:example.org'', ''#b:example.org'', ''#c:example.org'']"]
      aliases_fetched_at_most_once [of "''!h:example.org''" home_state silent_server
        "[''#a:example.org'', ''#b:example.org'']"]
    by simp
qed

section \<open>Properties of sending\<close>

lemma send_message_append:
  "send_message t st message (xs @ ys) = send_message t (send_message t st message xs) message ys"
  by (induction xs arbitrary: st) auto

text \<open>
  C9. The targets are processed in order, each by a resolve followed by a send. Whatever
  happened to the targets before it, a target is resolved in the state they left; a
  join error is logged with the target and the server's code and content; a send error
  is logged the same way after the send call; a send that succeeds logs nothing. In
  every case the loop goes on with the targets that remain. The function returns the
  state: no error leaves it.
\<close>

theorem send_message_isolates_failures:
  assumes "join_or_get_room t (send_message t st message before) target = (resolved, st1)"
  shows "(\<forall>code content. resolved = Inl (code, content) \<longrightarrow>
            send_message t st message (before @ target # after)
              = send_message t (st1\<lparr>calls := calls st1 @ [LogError target code content]\<rparr>)
                  message after)
       \<and> (\<forall>room code content.
            resolved = Inr room
              \<and> api_send_text t (r_room_id room) message = Inl (code, content) \<longrightarrow>
            send_message t st message (before @ target # after)
              = send_message t
                  (st1\<lparr>calls := calls st1 @ [SendText (r_room_id room) message,
                                               LogError target code content]\<rparr>)
                  message after)
       \<and> (\<forall>room answer.
            resolved = Inr room \<and> api_send_text t (r_room_id room) message = Inr answer \<longrightarrow>
            send_message t st message (before @ target # after)
              = send_message t (st1\<lparr>calls := calls st1 @ [SendText (r_room_id room) message]\<rparr>)
                  message after)"
proof -
  have step: "send_message t st message (before @ target # after)
      = send_message t (st1\<lparr>calls := calls st1 @ send_outcome t message target resolved\<rparr>)
          message after"
    using assms by (simp add: send_message_append send_to_target_def)
  show ?thesis
    unfolding step by (simp add: send_outcome_def)
qed

text \<open>A message to the valid alias \<open>#home\<close> and then to an alias the server does not
  know: the room is joined and the message sent there, and for the second target the
  join is tried and its failure logged; nothing else happens.\<close>

theorem send_message_isolates_failures_witness:
  "calls (send_message listing_server fresh_state ''hello''
            [''#home:example.org'', ''#nowhere:example.org''])
     = [JoinRoom ''#home:example.org'', SendText ''!h:example.org'' ''hello'',
        UpdateAliases ''!h:example.org'', JoinRoom ''#nowhere:example.org'',
        LogError ''#nowhere:example.org'' 404 ''No known servers'']"
proof -
  let ?st0 = "send_message listing_server fresh_state ''hello'' [''#home:example.org'']"
  have st0: "?st0 = \<lparr>cl_rooms = [\<lparr>r_room_id = ''!h:example.org'', r_aliases = []\<rparr>],
       aliases_fetched_for = {},
       calls = [JoinRoom ''#home:example.org'', SendText ''!h:example.org'' ''hello'']\<rparr>"
    by (simp add: send_to_target_def join_or_get_room_def send_outcome_def listing_server_def
        fresh_state_def mkroom_def)
  have r: "join_or_get_room listing_server ?st0 ''#nowhere:example.org''
      = (Inl (404, ''No known servers''),
         \<lparr>cl_rooms = [\<lparr>r_room_id = ''!h:example.org'', r_aliases = [''#home:example.org'']\<rparr>],
          aliases_fetched_for = {''!h:example.org''},
          calls = [JoinRoom ''#home:example.org'', SendText ''!h:example.org'' ''hello'',
                   UpdateAliases ''!h:example.org'', JoinRoom ''#nowhere:example.org'']\<rparr>)"
    unfolding st0
    by (simp add: join_or_get_room_def listing_server_def update_aliases_def)
  show ?thesis
    using send_message_isolates_failures [OF r, of "[]"] by simp
qed

section \<open>Properties of login\<close>

text \<open>
  C8. When a token is stored for the configured identity and the token login is
  rejected, the password login is tried. If it succeeds, the new token is put under the
  identity and the mapping is written to the token file once, and the client with the
  new token is returned. If it fails, its error, code and content, is the result of
  login, nothing is written, and the setup returns \<^verbatim>\<open>False\<close> without a client.
\<close>

theorem token_rejected_password_fallback:
  assumes "auth_tokens s user = Some token"
    and "hs_token_login hs user token = Some (code, content)"
  shows "(\<forall>new_token. hs_password_login hs user password = Inr new_token \<longrightarrow>
            login hs user password s
              = (Inr \<lparr>client_user_id = user, client_token = new_token\<rparr>,
                 s\<lparr>auth_tokens := (auth_tokens s)(user \<mapsto> new_token),
                    saved := saved s @ [(auth_tokens s)(user \<mapsto> new_token)],
                    logged := logged s @ [TokenLoginFailed code content]\<rparr>))
       \<and> (\<forall>code' content'. hs_password_login hs user password = Inl (code', content') \<longrightarrow>
            login hs user password s
              = (Inl (code', content'),
                 s\<lparr>logged := logged s @ [TokenLoginFailed code content,
                                          LoginFailed code' content']\<rparr>)
            \<and> async_setup_entry hs user password s
              = (False, None,
                 s\<lparr>logged := logged s @ [TokenLoginFailed code content,
                                          LoginFailed code' content',
                                          SetupFailed code' content']\<rparr>))"
  using assms
  by (simp add: login_def login_by_token_def login_by_password_def store_auth_token_def
      save_json_def async_setup_entry_def)

text \<open>The stored token is rejected with 401. With the right password one mapping is
  written, with the new token; with a wrong one nothing is written and the error 403
  is the result.\<close>

theorem token_rejected_password_fallback_witness:
  "login expiring_server ''@bot:example.org'' ''secret'' stale_session
     = (Inr \<lparr>client_user_id = ''@bot:example.org'', client_token = ''new-token''\<rparr>,
        \<lparr>auth_tokens = [''@bot:example.org'' \<mapsto> ''new-token''],
         saved = [[''@bot:example.org'' \<mapsto> ''new-token'']],
         logged = [TokenLoginFailed 401 ''Invalid macaroon'']\<rparr>)
   \<and> login expiring_server ''@bot:example.org'' ''wrong'' stale_session
     = (Inl (403, ''Invalid password''),
        \<lparr>auth_tokens = [''@bot:example.org'' \<mapsto> ''old-token''], saved = [],
         logged = [TokenLoginFailed 401 ''Invalid macaroon'',
                   LoginFailed 403 ''Invalid password'']\<rparr>)
   \<and> fst (async_setup_entry expiring_server ''@bot:example.org'' ''wrong'' stale_session)
     = False"
proof -
  have a: "auth_tokens stale_session ''@bot:example.org'' = Some ''old-token''"
    by (simp add: stale_session_def)
  have b: "hs_token_login expiring_server ''@bot:example.org'' ''old-token''
      = Some (401, ''Invalid macaroon'')"
    by (simp add: expiring_server_def)
  have ok: "hs_password_login expiring_server ''@bot:example.org'' ''secret'' = Inr ''new-token''"
    by (simp add: expiring_server_def)
  have bad: "hs_password_login expiring_server ''@bot:example.org'' ''wrong''
      = Inl (403, ''Invalid password'')"
    by (simp add: expiring_server_def)
  show ?thesis
    using token_rejected_password_fallback [OF a b, of "''secret''"]
      token_rejected_password_fallback [OF a b, of "''wrong''"] ok bad
    by (simp add: stale_session_def)
qed

end
